theory Spec2Isabelle
  imports Main
begin

section \<open>The attendance loop of FaceRecognition.tsx\<close>

text \<open>
  The component \<^verbatim>\<open>FaceRecognition\<close> (src/components/FaceRecognition.tsx) receives three
  props, \<^verbatim>\<open>onAttendanceMarked\<close>, \<^verbatim>\<open>onFaceNotDetected\<close> and \<^verbatim>\<open>onFaceDetected\<close>, and its
  \<^verbatim>\<open>handleVideoPlay\<close> starts a \<^verbatim>\<open>setInterval\<close> whose asynchronous callback awaits the
  detections of the face library and then walks over the matched labels. The face library,
  the camera and the canvas drawing are external; what is embedded here is the control flow
  of the interval callback and the state it keeps.
\<close>

subsection \<open>Data\<close>

text \<open>
  A label is \<^verbatim>\<open>result.label\<close>: the matcher is built from the labels of
  \<^verbatim>\<open>loadLabeledImages\<close> (\<^verbatim>\<open>'Student1'\<close>, \<^verbatim>\<open>'Student2'\<close>) and answers one of them or
  \<^verbatim>\<open>'unknown'\<close>. A clock reading is a value of \<^verbatim>\<open>Date.now()\<close>, an integral number of
  milliseconds. A detection is one element of \<^verbatim>\<open>results\<close> together with the clock reading
  that its iteration of \<^verbatim>\<open>forEach\<close> takes at line 85 (the clock is read once per element,
  not once per tick).
\<close>

type_synonym label = string
type_synonym clock = int

text \<open>Line 107: the labels the matcher is built from.\<close>

definition labels :: "label list" where
  "labels = [''Student1'', ''Student2'']"

type_synonym detection = "label \<times> clock"

text \<open>
  A call of one of the three props. \<^verbatim>\<open>onAttendanceMarked\<close> receives only the name; the
  second argument of the constructor records the value of the local \<^verbatim>\<open>now\<close> at the moment
  of the call, so that a trace of calls carries the time stamps the cooldown is about.
\<close>

datatype call =
    onAttendanceMarked label clock
  | onFaceNotDetected
  | onFaceDetected label

text \<open>
  \<^verbatim>\<open>const lastMarkedTime: { [key: string]: number } = {}\<close>: the own properties of the object
  as a map. The names an object literal inherits (\<^verbatim>\<open>constructor\<close>, \<^verbatim>\<open>toString\<close> and the
  like) are not modelled: none of them is a label of this matcher.
\<close>

type_synonym lastMarked = "label \<rightharpoonup> clock"

subsection \<open>The test of line 89\<close>

text \<open>
  \<^verbatim>\<open>!lastMarkedTime[studentName]\<close>: JavaScript's negation of a value that is
  \<^verbatim>\<open>undefined\<close> or a number. It is true for \<^verbatim>\<open>undefined\<close> and also for the number 0.
\<close>

definition falsy :: "clock option \<Rightarrow> bool" where
  "falsy v = (case v of None \<Rightarrow> True | Some t \<Rightarrow> t = 0)"

text \<open>
  \<^verbatim>\<open>now - lastMarkedTime[studentName] > 60000\<close>: with \<^verbatim>\<open>undefined\<close> the difference is
  \<^verbatim>\<open>NaN\<close> and the comparison is false.
\<close>

definition elapsed :: "clock \<Rightarrow> clock option \<Rightarrow> bool" where
  "elapsed now v = (case v of None \<Rightarrow> False | Some t \<Rightarrow> now - t > 60000)"

subsection \<open>One iteration of \<^verbatim>\<open>results.forEach\<close> (lines 76 to 94)\<close>

text \<open>
  The state of the iteration is the map, the local flag \<^verbatim>\<open>faceDetected\<close> and the calls
  made so far in this tick.
\<close>

type_synonym tick_state = "lastMarked \<times> bool \<times> call list"

fun forEach_body :: "detection \<Rightarrow> tick_state \<Rightarrow> tick_state" where
  "forEach_body (studentName, now) (lastMarkedTime, faceDetected, calls) =
     (if studentName \<noteq> ''unknown'' then
        (if falsy (lastMarkedTime studentName) \<or> elapsed now (lastMarkedTime studentName)
         then (lastMarkedTime(studentName \<mapsto> now), True,
               calls @ [onAttendanceMarked studentName now])
         else (lastMarkedTime, True, calls))
      else (lastMarkedTime, faceDetected, calls))"

subsection \<open>The body of a tick once the detections are there (lines 74 to 98)\<close>

definition tick_body :: "lastMarked \<Rightarrow> detection list \<Rightarrow> lastMarked \<times> call list" where
  "tick_body lastMarkedTime results =
     (case fold forEach_body results (lastMarkedTime, False, []) of
        (lastMarkedTime', faceDetected, calls) \<Rightarrow>
          (lastMarkedTime', if faceDetected then calls else calls @ [onFaceNotDetected]))"

subsection \<open>The interval callback and the events around it\<close>

text \<open>
  The callback is an \<^verbatim>\<open>async\<close> function: it runs up to the \<^verbatim>\<open>await\<close> of lines 53 to 56
  when the timer fires, and its remainder runs when the awaited promise settles. Nothing in
  it catches an exception, so a rejected detection or a \<^verbatim>\<open>TypeError\<close> ends the callback
  with a rejected promise that nobody handles.
\<close>

datatype js_error = DetectionError | TypeError

datatype settled = Rejected | Fulfilled "detection list"

text \<open>
  The state of one invocation of \<^verbatim>\<open>handleVideoPlay\<close>: whether the two refs hold an
  element, whether the interval is still registered, the map, the number of callbacks
  suspended at the \<^verbatim>\<open>await\<close>, the calls of the props so far and the rejections that
  left the callback.
\<close>

record component =
  videoRef :: bool
  canvasRef :: bool
  intervalActive :: bool
  marked :: lastMarked
  inFlight :: nat
  trace :: "call list"
  unhandled :: "js_error list"

text \<open>Lines 51 to 56: the guard on the two refs, then the detection request starts.\<close>

definition tick_start :: "component \<Rightarrow> component" where
  "tick_start c =
     (if videoRef c \<and> canvasRef c then c\<lparr>inFlight := inFlight c + 1\<rparr> else c)"

text \<open>
  Lines 53 to 99 from the point where the awaited promise settles. Line 59 reads
  \<^verbatim>\<open>videoRef.current.videoWidth\<close> without a guard; line 63 guards the canvas again.
\<close>

definition tick_resume :: "settled \<Rightarrow> component \<Rightarrow> component" where
  "tick_resume r c =
     (let c1 = c\<lparr>inFlight := inFlight c - 1\<rparr> in
      case r of
        Rejected \<Rightarrow> c1\<lparr>unhandled := unhandled c1 @ [DetectionError]\<rparr>
      | Fulfilled detections \<Rightarrow>
          if \<not> videoRef c1 then c1\<lparr>unhandled := unhandled c1 @ [TypeError]\<rparr>
          else if canvasRef c1 then
            (case tick_body (marked c1) detections of
               (lastMarkedTime', calls) \<Rightarrow>
                 c1\<lparr>marked := lastMarkedTime', trace := trace c1 @ calls\<rparr>)
          else c1)"

text \<open>
  What can happen to the component: the timer fires, an awaited detection settles, the
  function returned at line 103 is called (\<^verbatim>\<open>clearInterval(intervalId)\<close>), or the refs
  change (React sets them when the elements mount and clears them when they unmount).
\<close>

datatype event = TimerFire | Settle settled | ClearInterval | Refs bool bool

fun step :: "event \<Rightarrow> component \<Rightarrow> component" where
  "step TimerFire c = (if intervalActive c then tick_start c else c)"
| "step (Settle r) c = (if 0 < inFlight c then tick_resume r c else c)"
| "step ClearInterval c = c\<lparr>intervalActive := False\<rparr>"
| "step (Refs v cv) c = c\<lparr>videoRef := v, canvasRef := cv\<rparr>"

definition run :: "event list \<Rightarrow> component \<Rightarrow> component" where
  "run es c = fold step es c"

text \<open>
  The state right after \<^verbatim>\<open>setInterval\<close> at line 51: an empty map (line 49), a registered
  interval, nothing in flight.
\<close>

definition handleVideoPlay :: "bool \<Rightarrow> bool \<Rightarrow> component" where
  "handleVideoPlay video canvas =
     \<lparr>videoRef = video, canvasRef = canvas, intervalActive = True, marked = Map.empty,
      inFlight = 0, trace = [], unhandled = []\<rparr>"

text \<open>One tick that runs to its end: the timer fires and the detection resolves.\<close>

definition tick :: "detection list \<Rightarrow> event list" where
  "tick results = [TimerFire, Settle (Fulfilled results)]"

subsection \<open>Reading a detection list and a trace\<close>

text \<open>The test of line 87 on a detection: \<^verbatim>\<open>studentName !== 'unknown'\<close>.\<close>

definition known :: "detection \<Rightarrow> bool" where
  "known d = (fst d \<noteq> ''unknown'')"

text \<open>
  The time stamps of the calls \<^verbatim>\<open>onAttendanceMarked(L)\<close> in a trace, in the order of the
  calls.
\<close>

fun marked_at :: "label \<Rightarrow> call list \<Rightarrow> clock list" where
  "marked_at L [] = []"
| "marked_at L (onAttendanceMarked l t # cs) =
     (if l = L then t # marked_at L cs else marked_at L cs)"
| "marked_at L (onFaceNotDetected # cs) = marked_at L cs"
| "marked_at L (onFaceDetected l # cs) = marked_at L cs"

text \<open>An event none of whose clock readings is 0.\<close>

definition nonzero_clock :: "event \<Rightarrow> bool" where
  "nonzero_clock e =
     (case e of Settle (Fulfilled ds) \<Rightarrow> list_all (\<lambda>d. snd d \<noteq> 0) ds | _ \<Rightarrow> True)"

text \<open>The calls the tick makes: lines 91 and 97.\<close>

definition made_by_tick :: "call set" where
  "made_by_tick = {onFaceNotDetected} \<union> {onAttendanceMarked l t |l t. l \<noteq> ''unknown''}"

subsection \<open>The teardown\<close>

text \<open>
  When the component unmounts, React empties both refs, and they stay empty: an event
  after the teardown is any event but a change of the refs.
\<close>

definition keeps_refs :: "event \<Rightarrow> bool" where
  "keeps_refs e = (case e of Refs v cv \<Rightarrow> False | _ \<Rightarrow> True)"

subsection \<open>The mounted component and its play events\<close>

text \<open>
  \<^verbatim>\<open>handleVideoPlay\<close> is the \<^verbatim>\<open>onPlay\<close> handler of the video element (line 134), so every
  play event runs it again: each run builds a map of its own (line 49) and registers an
  interval of its own (line 51). The function it returns (line 103) is the value of an
  event handler and nothing calls it, so the mounted component has no event that
  unregisters an interval. The state of the mounted component is the two refs, the
  intervals started so far, oldest first, and the calls of the props in the order they
  were made, whichever interval made them.
\<close>

record page =
  videoMounted :: bool
  canvasMounted :: bool
  intervals :: "component list"
  props :: "call list"

text \<open>
  A play event, a change of the refs, the timer of the \<^verbatim>\<open>i\<close>-th interval firing, and an
  awaited detection of the \<^verbatim>\<open>i\<close>-th interval settling.
\<close>

datatype page_event = Play | Mount bool bool | Timer nat | Settled nat settled

definition at_interval :: "nat \<Rightarrow> event \<Rightarrow> page \<Rightarrow> page" where
  "at_interval i e p =
     (if i < length (intervals p) then
        (let c = intervals p ! i; c' = step e c in
         p\<lparr>intervals := (intervals p)[i := c'],
           props := props p @ drop (length (trace c)) (trace c')\<rparr>)
      else p)"

fun page_step :: "page_event \<Rightarrow> page \<Rightarrow> page" where
  "page_step Play p =
     p\<lparr>intervals := intervals p @ [handleVideoPlay (videoMounted p) (canvasMounted p)]\<rparr>"
| "page_step (Mount v cv) p =
     p\<lparr>videoMounted := v, canvasMounted := cv,
       intervals := map (step (Refs v cv)) (intervals p)\<rparr>"
| "page_step (Timer i) p = at_interval i TimerFire p"
| "page_step (Settled i r) p = at_interval i (Settle r) p"

definition page_run :: "page_event list \<Rightarrow> page \<Rightarrow> page" where
  "page_run es p = fold page_step es p"



text \<open>An event of the mounted component other than a change of the refs.\<close>

definition keeps_mount :: "page_event \<Rightarrow> bool" where
  "keeps_mount e = (case e of Mount v cv \<Rightarrow> False | _ \<Rightarrow> True)"

subsection \<open>Invariants used in the proofs\<close>

text \<open>
  The invariant of a session whose clock never reads 0: for every label the marks in the
  trace are more than 60000 ms apart, none of them is later than the entry of the map,
  and no entry is 0.
\<close>

definition spaced :: "lastMarked \<Rightarrow> call list \<Rightarrow> bool" where
  "spaced lm cs =
     (\<forall>L. sorted_wrt (\<lambda>a b. b - a > 60000) (marked_at L cs)
        \<and> (\<forall>x\<in>set (marked_at L cs). \<exists>t. lm L = Some t \<and> x \<le> t)
        \<and> lm L \<noteq> Some 0)"

text \<open>
  The invariant of one tick whose clock readings are close together: the label has no
  mark yet in this tick, or one mark, which is its entry and at most 60000 ms before
  every reading of the tick.
\<close>

definition once :: "label \<Rightarrow> detection list \<Rightarrow> tick_state \<Rightarrow> bool" where
  "once L ds s =
     (case s of (lm, fd, cs) \<Rightarrow>
        marked_at L cs = [] \<or>
        (\<exists>t. marked_at L cs = [t] \<and> lm L = Some t \<and> t \<noteq> 0
              \<and> (\<forall>d\<in>set ds. snd d - t \<le> 60000)))"

section \<open>Properties\<close>

subsection \<open>Auxiliary facts about the iteration\<close>

lemma marked_at_append: "marked_at L (xs @ ys) = marked_at L xs @ marked_at L ys"
  by (induction L xs rule: marked_at.induct) auto

lemma fold_invariant:
  assumes "P s" and "\<And>x s. x \<in> set xs \<Longrightarrow> P s \<Longrightarrow> P (f x s)"
  shows "P (fold f xs s)"
  using assms by (induction xs arbitrary: s) auto

lemma fold_forEach_flag:
  "fst (snd (fold forEach_body ds (lm, fd, cs))) = (fd \<or> list_ex known ds)"
  by (induction ds arbitrary: lm fd cs) (auto simp: known_def)

lemma fold_forEach_unknown:
  "list_all (\<lambda>d. \<not> known d) ds \<Longrightarrow> fold forEach_body ds (lm, fd, cs) = (lm, fd, cs)"
  by (induction ds arbitrary: lm fd cs) (auto simp: known_def)

lemma forEach_body_no_not_detected:
  "onFaceNotDetected \<notin> set (snd (snd s)) \<Longrightarrow>
   onFaceNotDetected \<notin> set (snd (snd (forEach_body d s)))"
  by (cases d; cases s) auto

lemma fold_forEach_no_not_detected:
  "onFaceNotDetected \<notin> set (snd (snd s)) \<Longrightarrow>
   onFaceNotDetected \<notin> set (snd (snd (fold forEach_body ds s)))"
  by (rule fold_invariant) (auto simp: forEach_body_no_not_detected)

lemma tick_body_calls:
  "snd (tick_body lm ds) =
     snd (snd (fold forEach_body ds (lm, False, []))) @
     (if list_ex known ds then [] else [onFaceNotDetected])"
proof -
  obtain lm' fd cs where f: "fold forEach_body ds (lm, False, []) = (lm', fd, cs)"
    by (cases "fold forEach_body ds (lm, False, [])") auto
  have "fd = list_ex known ds"
    using fold_forEach_flag [of ds lm False "[]"] by (simp add: f)
  then show ?thesis by (simp add: tick_body_def f)
qed

lemma count_not_detected:
  "count_list (snd (tick_body lm ds)) onFaceNotDetected = (if list_ex known ds then 0 else 1)"
  using fold_forEach_no_not_detected [of "(lm, False, [])" ds]
  by (simp add: tick_body_calls count_list_0_iff)

lemma tick_body_all_unknown:
  "list_all (\<lambda>d. \<not> known d) ds \<Longrightarrow> tick_body lm ds = (lm, [onFaceNotDetected])"
  by (simp add: tick_body_def fold_forEach_unknown)

lemma trace_tick_resume:
  "trace (tick_resume r c) =
     (case r of
        Rejected \<Rightarrow> trace c
      | Fulfilled ds \<Rightarrow>
          if videoRef c \<and> canvasRef c then trace c @ snd (tick_body (marked c) ds)
          else trace c)"
  by (simp add: tick_resume_def Let_def split: settled.splits prod.splits)

lemma marked_tick_resume:
  "marked (tick_resume r c) =
     (case r of
        Rejected \<Rightarrow> marked c
      | Fulfilled ds \<Rightarrow>
          if videoRef c \<and> canvasRef c then fst (tick_body (marked c) ds)
          else marked c)"
  by (simp add: tick_resume_def Let_def split: settled.splits prod.splits)

subsection \<open>The map and the marks of one interval\<close>

lemma forEach_body_spaced:
  assumes "spaced lm (pre @ cs)" and "snd d \<noteq> 0"
    and "forEach_body d (lm, fd, cs) = (lm', fd', cs')"
  shows "spaced lm' (pre @ cs')"
proof -
  obtain l now where d: "d = (l, now)" by (cases d)
  show ?thesis
  proof (cases "l \<noteq> ''unknown'' \<and> (falsy (lm l) \<or> elapsed now (lm l))")
    case False
    with assms(3) have "lm' = lm" "cs' = cs" by (auto simp: d split: if_splits)
    with assms(1) show ?thesis by simp
  next
    case True
    with assms(3) have eq: "lm' = lm(l \<mapsto> now)" "cs' = cs @ [onAttendanceMarked l now]"
      by (auto simp: d)
    from assms(2) d have nz: "now \<noteq> 0" by simp
    have far: "\<forall>x\<in>set (marked_at l (pre @ cs)). now - x > 60000"
    proof
      fix x assume "x \<in> set (marked_at l (pre @ cs))"
      with assms(1) obtain t where t: "lm l = Some t" "x \<le> t" "t \<noteq> 0"
        unfolding spaced_def by metis
      with True have "now - t > 60000" by (auto simp: falsy_def elapsed_def)
      with t show "now - x > 60000" by simp
    qed
    show ?thesis
      unfolding spaced_def
    proof (intro allI conjI)
      fix L
      show "sorted_wrt (\<lambda>a b. b - a > 60000) (marked_at L (pre @ cs'))"
        using assms(1) far
        by (auto simp: spaced_def eq marked_at_append sorted_wrt_append)
      show "\<forall>x\<in>set (marked_at L (pre @ cs')). \<exists>t. lm' L = Some t \<and> x \<le> t"
      proof (cases "L = l")
        case True
        have "x \<le> now" if "x \<in> set (marked_at l (pre @ cs))" for x
          using far that by force
        with True show ?thesis
          by (auto simp: eq marked_at_append)
      next
        case False
        with assms(1) show ?thesis
          by (simp add: spaced_def eq marked_at_append)
      qed
      show "lm' L \<noteq> Some 0"
        using assms(1) nz by (auto simp: spaced_def eq)
    qed
  qed
qed

lemma fold_forEach_spaced:
  assumes "spaced lm (pre @ cs)" and "list_all (\<lambda>d. snd d \<noteq> 0) ds"
    and "fold forEach_body ds (lm, fd, cs) = (lm', fd', cs')"
  shows "spaced lm' (pre @ cs')"
  using assms
proof (induction ds arbitrary: lm fd cs)
  case Nil
  then show ?case by simp
next
  case (Cons d ds)
  obtain lm1 fd1 cs1 where s1: "forEach_body d (lm, fd, cs) = (lm1, fd1, cs1)"
    by (cases "forEach_body d (lm, fd, cs)") auto
  from Cons.prems(2) have "snd d \<noteq> 0" by simp
  with Cons.prems(1) have "spaced lm1 (pre @ cs1)"
    using s1 by (rule forEach_body_spaced)
  moreover from Cons.prems(2) have "list_all (\<lambda>d. snd d \<noteq> 0) ds" by simp
  moreover from Cons.prems(3) s1 have "fold forEach_body ds (lm1, fd1, cs1) = (lm', fd', cs')"
    by simp
  ultimately show ?case by (rule Cons.IH)
qed

lemma spaced_not_detected: "spaced lm cs \<Longrightarrow> spaced lm (cs @ [onFaceNotDetected])"
  by (simp add: spaced_def marked_at_append)

lemma tick_body_spaced:
  assumes "spaced lm pre" and "list_all (\<lambda>d. snd d \<noteq> 0) ds"
  shows "spaced (fst (tick_body lm ds)) (pre @ snd (tick_body lm ds))"
proof -
  obtain lm' fd cs where f: "fold forEach_body ds (lm, False, []) = (lm', fd, cs)"
    by (cases "fold forEach_body ds (lm, False, [])") auto
  from assms(1) have "spaced lm (pre @ [])" by simp
  then have "spaced lm' (pre @ cs)"
    using assms(2) f by (rule fold_forEach_spaced)
  then show ?thesis
    using spaced_not_detected [of lm' "pre @ cs"] by (simp add: tick_body_def f)
qed

lemma tick_resume_spaced:
  assumes "spaced (marked c) (trace c)" and "nonzero_clock (Settle r)"
  shows "spaced (marked (tick_resume r c)) (trace (tick_resume r c))"
proof (cases r)
  case Rejected
  with assms(1) show ?thesis by (simp add: trace_tick_resume marked_tick_resume)
next
  case (Fulfilled ds)
  with assms(2) have nz: "list_all (\<lambda>d. snd d \<noteq> 0) ds" by (simp add: nonzero_clock_def)
  show ?thesis
    using assms(1) tick_body_spaced [OF assms(1) nz]
    by (simp add: Fulfilled trace_tick_resume marked_tick_resume)
qed

lemma step_spaced:
  assumes "spaced (marked c) (trace c)" and "nonzero_clock e"
  shows "spaced (marked (step e c)) (trace (step e c))"
proof (cases e)
  case TimerFire
  with assms(1) show ?thesis by (simp add: tick_start_def)
next
  case (Settle r)
  with assms show ?thesis by (simp add: tick_resume_spaced)
next
  case ClearInterval
  with assms(1) show ?thesis by simp
next
  case (Refs v cv)
  with assms(1) show ?thesis by simp
qed

lemma run_spaced:
  assumes "spaced (marked c) (trace c)" and "list_all nonzero_clock es"
  shows "spaced (marked (run es c)) (trace (run es c))"
  using assms
proof (induction es arbitrary: c)
  case Nil
  then show ?case by (simp add: run_def)
next
  case (Cons e es)
  from Cons.prems(2) have "nonzero_clock e" by simp
  with Cons.prems(1) have "spaced (marked (step e c)) (trace (step e c))"
    by (rule step_spaced)
  moreover from Cons.prems have "list_all nonzero_clock es" by simp
  ultimately have "spaced (marked (run es (step e c))) (trace (run es (step e c)))"
    by (rule Cons.IH)
  then show ?case by (simp add: run_def)
qed

text \<open>
  For one interval on a clock that never reads 0, whatever the order of the events and
  whether or not the clock runs backwards, any two calls \<^verbatim>\<open>onAttendanceMarked(L)\<close> are
  more than 60000 ms apart, the later one having the greater time stamp.
\<close>

lemma marks_spaced_nonzero_clock:
  assumes "list_all nonzero_clock es"
  shows "sorted_wrt (\<lambda>a b. b - a > 60000)
           (marked_at L (trace (run es (handleVideoPlay video canvas))))"
proof -
  have "spaced (marked (handleVideoPlay video canvas)) (trace (handleVideoPlay video canvas))"
    by (simp add: spaced_def handleVideoPlay_def)
  from run_spaced [OF this assms] show ?thesis by (simp add: spaced_def)
qed

text \<open>
  The map is written at line 90 only, with the reading of the clock: on a clock that
  never reads 0 no entry is 0.
\<close>

lemma run_no_zero_entry:
  assumes "list_all nonzero_clock es"
  shows "marked (run es (handleVideoPlay video canvas)) l \<noteq> Some 0"
proof -
  have "spaced (marked (handleVideoPlay video canvas)) (trace (handleVideoPlay video canvas))"
    by (simp add: spaced_def handleVideoPlay_def)
  from run_spaced [OF this assms] show ?thesis by (simp add: spaced_def)
qed

subsection \<open>C2: the test that decides a mark\<close>

text \<open>
  For a label other than \<^verbatim>\<open>'unknown'\<close> whose entry is not the number 0, the iteration does
  what the specification says: with no entry, or with more than 60000 ms since the entry,
  it stores the reading and calls \<^verbatim>\<open>onAttendanceMarked\<close>; otherwise it changes nothing but
  the flag.
\<close>

lemma forEach_body_nonzero_entry:
  "studentName \<noteq> ''unknown'' \<Longrightarrow> lm studentName \<noteq> Some 0 \<Longrightarrow>
   forEach_body (studentName, now) (lm, fd, cs) =
     (if lm studentName = None \<or> elapsed now (lm studentName)
      then (lm(studentName \<mapsto> now), True, cs @ [onAttendanceMarked studentName now])
      else (lm, True, cs))"
  by (auto simp: falsy_def elapsed_def split: option.splits)

text \<open>
  The reading 0 is left out because line 89 tests the entry for truthiness: an entry 0,
  which only a mark at the reading 0 can write, counts as missing.
\<close>

lemma reading_zero_counts_as_missing:
  "forEach_body (''Student1'', 0) (Map.empty, False, [])
     = (Map.empty(''Student1'' \<mapsto> 0), True, [onAttendanceMarked ''Student1'' 0])
   \<and> forEach_body (''Student1'', 1000) (Map.empty(''Student1'' \<mapsto> 0), True, [])
     = (Map.empty(''Student1'' \<mapsto> 1000), True, [onAttendanceMarked ''Student1'' 1000])"
  by (simp add: falsy_def)

text \<open>
  C2. On a clock that never reads 0, in every state the interval reaches, an iteration
  over a label other than \<^verbatim>\<open>'unknown'\<close> does the following: if the label has no entry, or
  the reading is more than 60000 ms after its entry, it stores the reading as the entry
  and calls \<^verbatim>\<open>onAttendanceMarked\<close> with the label; otherwise it neither changes the map nor
  calls anything.
\<close>

theorem mark_iff_no_entry_or_cooldown_over:
  assumes "list_all nonzero_clock es"
    and "lm = marked (run es (handleVideoPlay video canvas))"
    and "studentName \<noteq> ''unknown''"
  shows "forEach_body (studentName, now) (lm, fd, cs) =
     (if lm studentName = None \<or> (\<exists>t. lm studentName = Some t \<and> now - t > 60000)
      then (lm(studentName \<mapsto> now), True, cs @ [onAttendanceMarked studentName now])
      else (lm, True, cs))"
proof -
  from assms(1,2) have "lm studentName \<noteq> Some 0" by (simp add: run_no_zero_entry)
  with assms(3) show ?thesis
    by (auto simp: falsy_def elapsed_def split: option.splits)
qed

theorem mark_iff_no_entry_or_cooldown_over_witness:
  "forEach_body (''Student1'', 1700000030000)
     (marked (run (tick [(''Student1'', 1700000000000)]) (handleVideoPlay True True)), False, [])
     = (marked (run (tick [(''Student1'', 1700000000000)]) (handleVideoPlay True True)), True, [])
   \<and> snd (snd (forEach_body (''Student1'', 1700000061000)
     (marked (run (tick [(''Student1'', 1700000000000)]) (handleVideoPlay True True)), False, [])))
     = [onAttendanceMarked ''Student1'' 1700000061000]
   \<and> snd (snd (forEach_body (''Student2'', 1700000030000)
     (marked (run (tick [(''Student1'', 1700000000000)]) (handleVideoPlay True True)), False, [])))
     = [onAttendanceMarked ''Student2'' 1700000030000]"
proof -
  have nz: "list_all nonzero_clock (tick [(''Student1'', 1700000000000)])"
    by (simp add: tick_def nonzero_clock_def)
  have m: "marked (run (tick [(''Student1'', 1700000000000)]) (handleVideoPlay True True))
      = Map.empty(''Student1'' \<mapsto> 1700000000000)"
    by (simp add: run_def tick_def handleVideoPlay_def tick_start_def tick_resume_def
        tick_body_def falsy_def)
  show ?thesis
    using
      mark_iff_no_entry_or_cooldown_over [OF nz refl,
        where studentName = "''Student1''" and now = 1700000030000 and fd = False and cs = "[]"
          and video = True and canvas = True]
      mark_iff_no_entry_or_cooldown_over [OF nz refl,
        where studentName = "''Student1''" and now = 1700000061000 and fd = False and cs = "[]"
          and video = True and canvas = True]
      mark_iff_no_entry_or_cooldown_over [OF nz refl,
        where studentName = "''Student2''" and now = 1700000030000 and fd = False and cs = "[]"
          and video = True and canvas = True]
    by (simp add: m)
qed

subsection \<open>C3: when \<^verbatim>\<open>onFaceNotDetected\<close> fires\<close>

text \<open>
  C3. A tick that has its detections calls \<^verbatim>\<open>onFaceNotDetected\<close> exactly when no
  detection carries a label other than \<^verbatim>\<open>'unknown'\<close> (no detection at all, or unknown
  ones only), and then it is the only call of the tick. When the tick yields an unknown
  face and one of the labels of line 107 whose cooldown is over (no entry yet, or more than
  60000 ms since the entry), the calls of the tick are exactly one \<^verbatim>\<open>onAttendanceMarked\<close>
  for that label: \<^verbatim>\<open>onFaceNotDetected\<close> is not called.
\<close>

theorem tick_not_detected_iff_no_known_label:
  "count_list (snd (tick_body lm ds)) onFaceNotDetected =
     (if list_all (\<lambda>d. fst d = ''unknown'') ds then 1 else 0)
   \<and> (list_all (\<lambda>d. fst d = ''unknown'') ds \<longrightarrow>
        snd (tick_body lm ds) = [onFaceNotDetected])
   \<and> (l \<in> set labels \<and> (lm l = None \<or> elapsed now (lm l)) \<longrightarrow>
        snd (tick_body lm [(''unknown'', now0), (l, now)]) = [onAttendanceMarked l now])"
proof -
  have eq: "list_all (\<lambda>d. fst d = ''unknown'') ds = (\<not> list_ex known ds)"
    by (simp add: list_all_iff list_ex_iff known_def)
  have eq': "list_all (\<lambda>d. fst d = ''unknown'') ds = list_all (\<lambda>d. \<not> known d) ds"
    by (simp add: known_def)
  have a: "count_list (snd (tick_body lm ds)) onFaceNotDetected =
     (if list_all (\<lambda>d. fst d = ''unknown'') ds then 1 else 0)"
    unfolding eq by (simp add: count_not_detected)
  have b: "list_all (\<lambda>d. fst d = ''unknown'') ds \<longrightarrow>
        snd (tick_body lm ds) = [onFaceNotDetected]"
    unfolding eq' by (simp add: tick_body_all_unknown)
  have c: "l \<in> set labels \<and> (lm l = None \<or> elapsed now (lm l)) \<longrightarrow>
        snd (tick_body lm [(''unknown'', now0), (l, now)]) = [onAttendanceMarked l now]"
    by (auto simp: tick_body_def falsy_def labels_def)
  from a b c show ?thesis by blast
qed

theorem tick_not_detected_iff_no_known_label_witness:
  "count_list (snd (tick_body Map.empty [(''unknown'', 5), (''unknown'', 6)]))
      onFaceNotDetected = 1
   \<and> snd (tick_body Map.empty [(''unknown'', 5), (''unknown'', 6)]) = [onFaceNotDetected]
   \<and> snd (tick_body (Map.empty(''Student1'' \<mapsto> 1000))
            [(''unknown'', 70000), (''Student1'', 70001)])
       = [onAttendanceMarked ''Student1'' 70001]"
  using tick_not_detected_iff_no_known_label
    [of "Map.empty" "[(''unknown'', 5), (''unknown'', 6)]"]
    tick_not_detected_iff_no_known_label
    [of "Map.empty(''Student1'' \<mapsto> 1000)" "[]" "''Student1''" 70001 70000]
  by (simp add: elapsed_def labels_def)

subsection \<open>C9: one label several times in a tick\<close>

lemma forEach_body_once:
  assumes "d \<in> set ds" and "once L ds s"
    and "\<forall>d\<in>set ds. snd d \<noteq> 0"
    and "\<forall>d\<in>set ds. \<forall>d'\<in>set ds. snd d' - snd d \<le> 60000"
  shows "once L ds (forEach_body d s)"
proof -
  obtain l now where d: "d = (l, now)" by (cases d)
  obtain lm fd cs where s: "s = (lm, fd, cs)" by (cases s)
  from assms(1,3) d have nz: "now \<noteq> 0" by auto
  from assms(1,4) have "\<forall>d'\<in>set ds. snd d' - snd d \<le> 60000" by blast
  then have near: "\<forall>d'\<in>set ds. snd d' - now \<le> 60000" by (simp add: d)
  show ?thesis
  proof (cases "l = L")
    case False
    with assms(2) show ?thesis
      by (auto simp: once_def d s marked_at_append)
  next
    case True
    show ?thesis
    proof (cases "marked_at L cs = []")
      case True
      with \<open>l = L\<close> nz near show ?thesis
        by (auto simp: once_def d s marked_at_append)
    next
      case False
      with assms(2) obtain t where t: "marked_at L cs = [t]" "lm L = Some t" "t \<noteq> 0"
        "\<forall>d\<in>set ds. snd d - t \<le> 60000"
        by (auto simp: once_def s)
      from t(4) assms(1) d have "now - t \<le> 60000" by auto
      with t \<open>l = L\<close> have "forEach_body d s = (lm, fd \<or> l \<noteq> ''unknown'', cs)"
        by (auto simp: d s falsy_def elapsed_def)
      with t show ?thesis by (auto simp: once_def)
    qed
  qed
qed

lemma fold_forEach_once:
  assumes "\<forall>d\<in>set ds. snd d \<noteq> 0"
    and "\<forall>d\<in>set ds. \<forall>d'\<in>set ds. snd d' - snd d \<le> 60000"
  shows "once L ds (fold forEach_body ds (lm, False, []))"
proof (rule fold_invariant)
  show "once L ds (lm, False, [])" by (simp add: once_def)
next
  fix d s assume "d \<in> set ds" "once L ds s"
  then show "once L ds (forEach_body d s)"
    using assms by (rule forEach_body_once)
qed

text \<open>
  C9, as the code has it. The clock is read in every iteration (line 85), so the
  suppression of a repeated label inside one tick rests on the readings of that tick: when
  none of them is 0 and no two of them are more than 60000 ms apart, the tick calls
  \<^verbatim>\<open>onAttendanceMarked\<close> at most once for each label, however often the label occurs in
  the detection list and whatever the map held before.
\<close>

theorem tick_marks_label_at_most_once:
  assumes "\<forall>d\<in>set ds. snd d \<noteq> 0"
    and "\<forall>d\<in>set ds. \<forall>d'\<in>set ds. snd d' - snd d \<le> 60000"
  shows "length (marked_at L (snd (tick_body lm ds))) \<le> 1"
proof -
  obtain lm' fd cs where f: "fold forEach_body ds (lm, False, []) = (lm', fd, cs)"
    by (cases "fold forEach_body ds (lm, False, [])") auto
  from fold_forEach_once [OF assms, of L lm] have "length (marked_at L cs) \<le> 1"
    by (auto simp: once_def f)
  then show ?thesis
    by (simp add: tick_body_calls f marked_at_append)
qed

theorem tick_marks_label_at_most_once_witness:
  "length (marked_at ''Student1''
     (snd (tick_body Map.empty
        [(''Student1'', 1000), (''unknown'', 1001), (''Student1'', 1002)]))) \<le> 1
   \<and> marked_at ''Student1''
     (snd (tick_body Map.empty
        [(''Student1'', 1000), (''unknown'', 1001), (''Student1'', 1002)])) = [1000]"
proof -
  have "length (marked_at ''Student1''
     (snd (tick_body Map.empty
        [(''Student1'', 1000), (''unknown'', 1001), (''Student1'', 1002)]))) \<le> 1"
    by (rule tick_marks_label_at_most_once) simp_all
  moreover have "marked_at ''Student1''
     (snd (tick_body Map.empty
        [(''Student1'', 1000), (''unknown'', 1001), (''Student1'', 1002)])) = [1000]"
    by (simp add: tick_body_def falsy_def elapsed_def)
  ultimately show ?thesis by simp
qed

text \<open>
  C9 as stated fails: a tick whose two iterations read the clock 69000 ms apart (the wall
  clock was set forward in between) marks the same label twice.
\<close>

theorem tick_marks_label_twice:
  "marked_at ''Student1''
     (snd (tick_body Map.empty [(''Student1'', 1000), (''Student1'', 70000)]))
     = [1000, 70000]"
  by (simp add: tick_body_def falsy_def elapsed_def)

subsection \<open>C10: a tick without any call\<close>

lemma fold_forEach_suppressed:
  assumes "\<forall>d\<in>set ds. known d \<longrightarrow>
             (\<exists>t. lm (fst d) = Some t \<and> t \<noteq> 0 \<and> snd d - t \<le> 60000)"
  shows "fold forEach_body ds (lm, fd, cs) = (lm, fd \<or> list_ex known ds, cs)"
  using assms
proof (induction ds arbitrary: fd)
  case Nil
  then show ?case by simp
next
  case (Cons d ds)
  obtain l now where d: "d = (l, now)" by (cases d)
  show ?case
  proof (cases "l = ''unknown''")
    case True
    with Cons d show ?thesis by (simp add: known_def)
  next
    case False
    with Cons.prems d obtain t where "lm l = Some t" "t \<noteq> 0" "now - t \<le> 60000"
      by (auto simp: known_def)
    with False have "forEach_body d (lm, fd, cs) = (lm, True, cs)"
      by (simp add: d falsy_def elapsed_def)
    with Cons False d show ?thesis by (simp add: known_def)
  qed
qed

text \<open>
  When a known label is present and every known label of the tick has an entry other
  than 0 that is at most 60000 ms old, the tick calls nothing and leaves the map as it
  is.
\<close>

lemma tick_silent_in_cooldown:
  assumes "list_ex known ds"
    and "\<forall>d\<in>set ds. known d \<longrightarrow>
           (\<exists>t. lm (fst d) = Some t \<and> t \<noteq> 0 \<and> snd d - t \<le> 60000)"
  shows "tick_body lm ds = (lm, [])"
  using assms by (simp add: tick_body_def fold_forEach_suppressed)

text \<open>
  C10. A tick can call nothing at all. On a clock that never reads 0, in every state the
  interval reaches: when the tick has a detection with a label other than \<^verbatim>\<open>'unknown'\<close> and
  every such detection is within the cooldown of its label (the label has an entry and the
  reading is at most 60000 ms after it), the tick calls neither \<^verbatim>\<open>onAttendanceMarked\<close> nor
  \<^verbatim>\<open>onFaceNotDetected\<close> and leaves the map as it is.
\<close>

theorem tick_within_cooldown_calls_nothing:
  assumes "list_all nonzero_clock es"
    and "lm = marked (run es (handleVideoPlay video canvas))"
    and "list_ex known ds"
    and "\<forall>d\<in>set ds. known d \<longrightarrow> (\<exists>t. lm (fst d) = Some t \<and> snd d - t \<le> 60000)"
  shows "tick_body lm ds = (lm, [])"
proof -
  have "lm l \<noteq> Some 0" for l using assms(1,2) by (simp add: run_no_zero_entry)
  with assms(4) have "\<forall>d\<in>set ds. known d \<longrightarrow>
      (\<exists>t. lm (fst d) = Some t \<and> t \<noteq> 0 \<and> snd d - t \<le> 60000)"
    by metis
  with assms(3) show ?thesis by (rule tick_silent_in_cooldown)
qed

theorem tick_within_cooldown_calls_nothing_witness:
  "tick_body (marked (run (tick [(''Student1'', 1700000000000)]) (handleVideoPlay True True)))
     [(''unknown'', 1700000059000), (''Student1'', 1700000059000)]
   = (marked (run (tick [(''Student1'', 1700000000000)]) (handleVideoPlay True True)), [])"
proof -
  have nz: "list_all nonzero_clock (tick [(''Student1'', 1700000000000)])"
    by (simp add: tick_def nonzero_clock_def)
  have m: "marked (run (tick [(''Student1'', 1700000000000)]) (handleVideoPlay True True))
      = Map.empty(''Student1'' \<mapsto> 1700000000000)"
    by (simp add: run_def tick_def handleVideoPlay_def tick_start_def tick_resume_def
        tick_body_def falsy_def)
  show ?thesis
    by (rule tick_within_cooldown_calls_nothing [OF nz refl]) (simp_all add: known_def m)
qed

subsection \<open>C7: the scenario of three ticks\<close>

text \<open>
  C7. From an empty map, with \<^verbatim>\<open>'Student1'\<close> detected at a first tick, at a tick 30000 ms
  later and at a tick 61000 ms after the first, on a clock whose reading \<^verbatim>\<open>T\<close> at the
  first tick is not 0: exactly two calls of \<^verbatim>\<open>onAttendanceMarked('Student1')\<close> are made,
  one at the first tick and one at the third; the second tick makes none.
\<close>

theorem scenario_marks_first_and_third:
  "T \<noteq> 0 \<Longrightarrow>
   trace (run (tick [(''Student1'', T)] @ tick [(''Student1'', T + 30000)]
                 @ tick [(''Student1'', T + 61000)]) (handleVideoPlay True True))
     = [onAttendanceMarked ''Student1'' T, onAttendanceMarked ''Student1'' (T + 61000)]"
  by (simp add: run_def tick_def handleVideoPlay_def tick_start_def tick_resume_def
      tick_body_def falsy_def elapsed_def)

theorem scenario_marks_first_and_third_witness:
  "trace (run (tick [(''Student1'', 1700000000000)] @ tick [(''Student1'', 1700000030000)]
                 @ tick [(''Student1'', 1700000061000)]) (handleVideoPlay True True))
     = [onAttendanceMarked ''Student1'' 1700000000000,
        onAttendanceMarked ''Student1'' 1700000061000]"
  using scenario_marks_first_and_third [of 1700000000000] by simp

subsection \<open>C1: marks of the mounted component\<close>







subsection \<open>C4: a detection that fails\<close>

text \<open>
  C4. A failure of the detection within a tick is to be caught in that tick, logged and
  treated as a tick without detections, and the loop goes on. In the code the callback
  has no handler: when the awaited detection rejects, the rejection leaves the callback,
  and the tick calls nothing, whereas a tick without detections calls
  \<^verbatim>\<open>onFaceNotDetected\<close>. The interval stays registered and the next tick runs.
\<close>

theorem rejected_detection_not_caught:
  "trace (run [TimerFire, Settle Rejected] (handleVideoPlay True True)) = []
   \<and> unhandled (run [TimerFire, Settle Rejected] (handleVideoPlay True True))
       = [DetectionError]
   \<and> trace (run [TimerFire, Settle (Fulfilled [])] (handleVideoPlay True True))
       = [onFaceNotDetected]
   \<and> unhandled (run [TimerFire, Settle (Fulfilled [])] (handleVideoPlay True True)) = []
   \<and> trace (run ([TimerFire, Settle Rejected] @ tick [(''Student1'', 1000)])
        (handleVideoPlay True True)) = [onAttendanceMarked ''Student1'' 1000]"
  by (simp add: run_def tick_def handleVideoPlay_def tick_start_def tick_resume_def
      tick_body_def falsy_def)

subsection \<open>C5: after the teardown\<close>

lemma step_unmounted:
  assumes "\<not> (videoRef c \<and> canvasRef c)" and "keeps_refs e"
  shows "trace (step e c) = trace c \<and> videoRef (step e c) = videoRef c
         \<and> canvasRef (step e c) = canvasRef c"
proof (cases e)
  case TimerFire
  with assms(1) show ?thesis by (simp add: tick_start_def)
next
  case (Settle r)
  with assms(1) show ?thesis
    by (simp add: trace_tick_resume)
       (simp add: tick_resume_def Let_def split: settled.splits prod.splits)
next
  case ClearInterval
  then show ?thesis by simp
next
  case (Refs v cv)
  with assms(2) show ?thesis by (simp add: keeps_refs_def)
qed

lemma run_unmounted:
  assumes "\<not> (videoRef c \<and> canvasRef c)" and "list_all keeps_refs es"
  shows "trace (run es c) = trace c"
  using assms
proof (induction es arbitrary: c)
  case Nil
  then show ?case by (simp add: run_def)
next
  case (Cons e es)
  from Cons.prems(2) have k: "keeps_refs e" and ks: "list_all keeps_refs es" by simp_all
  from step_unmounted [OF Cons.prems(1) k]
  have s: "trace (step e c) = trace c" "\<not> (videoRef (step e c) \<and> canvasRef (step e c))"
    using Cons.prems(1) by simp_all
  from Cons.IH [OF s(2) ks] s(1) show ?case by (simp add: run_def)
qed

text \<open>
  C5. After the teardown of the component, which empties both refs, no prop is ever called
  again, whatever follows: timer events, calls of \<^verbatim>\<open>clearInterval\<close>, and the settlement of
  detections that were requested before the teardown. A timer event finds the guard of
  line 52 false; a detection that resolves ends at line 59 on the empty video ref before
  any call. This holds whether or not the interval has been unregistered.
\<close>

theorem no_callback_after_teardown:
  "list_all keeps_refs es \<Longrightarrow> trace (run es (step (Refs False False) c)) = trace c"
  using run_unmounted [of "step (Refs False False) c" es] by simp

theorem no_callback_after_teardown_witness:
  "trace (run [ClearInterval, Settle (Fulfilled [(''Student1'', 1700000000000)]), TimerFire,
               Settle (Fulfilled [])]
        (step (Refs False False) (run [TimerFire, TimerFire] (handleVideoPlay True True)))) = []
   \<and> inFlight (run [TimerFire, TimerFire] (handleVideoPlay True True)) = 2"
proof -
  have "trace (run [ClearInterval, Settle (Fulfilled [(''Student1'', 1700000000000)]), TimerFire,
               Settle (Fulfilled [])]
        (step (Refs False False) (run [TimerFire, TimerFire] (handleVideoPlay True True))))
     = trace (run [TimerFire, TimerFire] (handleVideoPlay True True))"
    by (rule no_callback_after_teardown) (simp add: keeps_refs_def)
  then show ?thesis by (simp add: run_def handleVideoPlay_def tick_start_def)
qed

text \<open>
  The same for the mounted component with all its intervals: once the refs are emptied,
  the calls of the props stay as they are, whatever play events, timer events and
  settlements follow.
\<close>

lemma page_step_unmounted:
  assumes "\<not> (videoMounted p \<and> canvasMounted p)"
    and "\<forall>c\<in>set (intervals p). \<not> (videoRef c \<and> canvasRef c)"
    and "keeps_mount e"
  shows "props (page_step e p) = props p
         \<and> \<not> (videoMounted (page_step e p) \<and> canvasMounted (page_step e p))
         \<and> (\<forall>c\<in>set (intervals (page_step e p)). \<not> (videoRef c \<and> canvasRef c))"
proof -
  have at: "props (at_interval i e' p) = props p
         \<and> \<not> (videoMounted (at_interval i e' p) \<and> canvasMounted (at_interval i e' p))
         \<and> (\<forall>c\<in>set (intervals (at_interval i e' p)). \<not> (videoRef c \<and> canvasRef c))"
    if k: "keeps_refs e'" for i e'
  proof (cases "i < length (intervals p)")
    case False
    with assms(1,2) show ?thesis by (simp add: at_interval_def)
  next
    case True
    with assms(2) have off: "\<not> (videoRef (intervals p ! i) \<and> canvasRef (intervals p ! i))"
      by simp
    note s = step_unmounted [OF off k]
    have "set ((intervals p)[i := step e' (intervals p ! i)])
        \<subseteq> insert (step e' (intervals p ! i)) (set (intervals p))"
      by (rule set_update_subset_insert)
    with assms(1,2) s off True show ?thesis
      by (auto simp: at_interval_def Let_def)
  qed
  show ?thesis
  proof (cases e)
    case Play
    with assms(1,2) show ?thesis by (auto simp: handleVideoPlay_def)
  next
    case (Mount v cv)
    with assms(3) show ?thesis by (simp add: keeps_mount_def)
  next
    case (Timer i)
    with at [of TimerFire i] show ?thesis by (simp add: keeps_refs_def)
  next
    case (Settled i r)
    with at [of "Settle r" i] show ?thesis by (simp add: keeps_refs_def)
  qed
qed

lemma page_run_unmounted:
  assumes "\<not> (videoMounted p \<and> canvasMounted p)"
    and "\<forall>c\<in>set (intervals p). \<not> (videoRef c \<and> canvasRef c)"
    and "list_all keeps_mount es"
  shows "props (page_run es p) = props p"
  using assms
proof (induction es arbitrary: p)
  case Nil
  then show ?case by (simp add: page_run_def)
next
  case (Cons e es)
  from Cons.prems(3) have k: "keeps_mount e" and ks: "list_all keeps_mount es" by simp_all
  note s = page_step_unmounted [OF Cons.prems(1,2) k]
  from s have "props (page_run es (page_step e p)) = props (page_step e p)"
    using ks by (intro Cons.IH) simp_all
  with s show ?case by (simp add: page_run_def)
qed

lemma no_prop_called_after_unmount:
  "list_all keeps_mount es \<Longrightarrow>
   props (page_run es (page_step (Mount False False) p)) = props p"
  using page_run_unmounted [of "page_step (Mount False False) p" es] by simp

subsection \<open>C6: the prop \<^verbatim>\<open>onFaceDetected\<close>\<close>

lemma forEach_body_props:
  "set (snd (snd s)) \<subseteq> made_by_tick \<Longrightarrow> set (snd (snd (forEach_body d s))) \<subseteq> made_by_tick"
  by (cases d; cases s) (auto simp: made_by_tick_def)

lemma tick_body_props: "set (snd (tick_body lm ds)) \<subseteq> made_by_tick"
proof -
  have "set (snd (snd (fold forEach_body ds (lm, False, [])))) \<subseteq> made_by_tick"
    by (rule fold_invariant) (simp_all add: forEach_body_props)
  then show ?thesis by (simp add: tick_body_calls made_by_tick_def)
qed

lemma step_props:
  assumes "set (trace c) \<subseteq> made_by_tick"
  shows "set (trace (step e c)) \<subseteq> made_by_tick"
proof (cases e)
  case TimerFire
  with assms show ?thesis by (simp add: tick_start_def)
next
  case (Settle r)
  with assms tick_body_props [of "marked c"] show ?thesis
    by (simp add: trace_tick_resume split: settled.splits)
next
  case ClearInterval
  with assms show ?thesis by simp
next
  case (Refs v cv)
  with assms show ?thesis by simp
qed

lemma run_props: "set (trace (run es (handleVideoPlay video canvas))) \<subseteq> made_by_tick"
  unfolding run_def
proof (induction es rule: rev_induct)
  case Nil
  show ?case by (simp add: handleVideoPlay_def)
next
  case (snoc e es)
  then show ?case by (simp add: step_props)
qed

text \<open>
  C6, as the code has it. The component takes \<^verbatim>\<open>onFaceDetected\<close> as a prop and never
  calls it: in every run of the loop each call is \<^verbatim>\<open>onFaceNotDetected\<close> or
  \<^verbatim>\<open>onAttendanceMarked\<close> with a label other than \<^verbatim>\<open>'unknown'\<close>.
\<close>

theorem only_marked_and_not_detected_called:
  "set (trace (run es (handleVideoPlay video canvas)))
      \<subseteq> {onFaceNotDetected} \<union> {onAttendanceMarked l t |l t. l \<noteq> ''unknown''}"
  using run_props [of es video canvas] by (simp add: made_by_tick_def)

text \<open>C6 as stated fails: no run of the loop contains a call of \<^verbatim>\<open>onFaceDetected\<close>.\<close>

theorem onFaceDetected_never_called:
  "\<not> (\<exists>es video canvas l.
        onFaceDetected l \<in> set (trace (run es (handleVideoPlay video canvas))))"
  using run_props by (fastforce simp: made_by_tick_def)

subsection \<open>C8: detections in flight\<close>

lemma run_timer_fires:
  "intervalActive c \<Longrightarrow> videoRef c \<Longrightarrow> canvasRef c \<Longrightarrow>
   run (replicate n TimerFire) c = c\<lparr>inFlight := inFlight c + n\<rparr>"
  by (induction n arbitrary: c) (auto simp: run_def tick_start_def)

text \<open>
  C8, as the code has it. The callback keeps no record of a detection in flight: while
  the interval is registered and both refs are set, every timer event starts a new
  detection, whatever the number already in flight, so \<^verbatim>\<open>n\<close> timer events without a
  settlement in between add \<^verbatim>\<open>n\<close> detections in flight. No tick is skipped or queued.
\<close>

theorem timer_fire_starts_request_regardless:
  "intervalActive c \<and> videoRef c \<and> canvasRef c \<longrightarrow>
     inFlight (step TimerFire c) = inFlight c + 1
     \<and> inFlight (run (replicate n TimerFire) c) = inFlight c + n"
  by (simp add: run_timer_fires tick_start_def)

theorem timer_fire_starts_request_regardless_witness:
  "inFlight (step TimerFire (step TimerFire (handleVideoPlay True True))) = 2
   \<and> inFlight (run (replicate 3 TimerFire) (step TimerFire (handleVideoPlay True True))) = 4"
proof -
  have h: "intervalActive (step TimerFire (handleVideoPlay True True))
    \<and> videoRef (step TimerFire (handleVideoPlay True True))
    \<and> canvasRef (step TimerFire (handleVideoPlay True True))"
    by (simp add: handleVideoPlay_def tick_start_def)
  have i: "inFlight (step TimerFire (handleVideoPlay True True)) = 1"
    by (simp add: handleVideoPlay_def tick_start_def)
  show ?thesis
    using timer_fire_starts_request_regardless
      [of "step TimerFire (handleVideoPlay True True)" 3] h i
    by simp
qed

text \<open>
  C8 as stated fails: two timer events before the first detection settles leave two
  detections in flight.
\<close>

theorem two_requests_in_flight:
  "inFlight (run [TimerFire, TimerFire] (handleVideoPlay True True)) = 2"
  by (simp add: run_def handleVideoPlay_def tick_start_def)

end
